theory Spec2Isabelle
  imports Main
begin

section \<open>Dog Treat Focus: the session state machine and the reward ledger\<close>

text \<open>
  A shallow embedding of \<^verbatim>\<open>src/DogTreatFocusApp.jsx\<close>, a React function component.

  Numbers are JavaScript numbers holding integers; they are modelled as \<^typ>\<open>int\<close>, which
  is exact below \<open>2^53\<close>. Strings are byte lists, a character beyond ASCII being written as
  its UTF-8 bytes. The timestamp \<^verbatim>\<open>new Date().toISOString()\<close> and the answer of
  \<^verbatim>\<open>confirm\<close> are inputs of the handlers that read them.
\<close>

subsection \<open>Data\<close>

datatype status = Idle | Running | Done | Failed

text \<open>A history entry; \<^verbatim>\<open>earnedTreats\<close> is present on a success entry only.\<close>

record entry =
  at :: string
  e_duration :: int
  success :: bool
  earnedTreats :: "int option"

text \<open>
  The shelter object. \<^verbatim>\<open>shelter?.url\<close> allows for a missing object and a missing
  field, so both are options.
\<close>

record shelter =
  name :: string
  url :: "string option"

text \<open>
  The values of the \<^verbatim>\<open>useState\<close> variables in one render of the component. A function
  declared in the component body (\<^verbatim>\<open>start\<close>, \<^verbatim>\<open>reset\<close>, \<^verbatim>\<open>complete\<close>,
  \<^verbatim>\<open>fail\<close>, \<^verbatim>\<open>donateNow\<close>) is a closure over the variables of the render that
  created it: what it reads from a variable is that render's value, while a functional
  updater (\<^verbatim>\<open>setTreats((t) => ...)\<close>) receives the latest state.
\<close>

record render =
  duration :: int
  strictMode :: bool
  treatsPerSuccess :: int
  pledgeRateCents :: int
  shelter :: "shelter option"
  remaining :: int
  running :: bool
  status :: status
  message :: string
  treats :: int
  donatedCents :: int
  history :: "entry list"

text \<open>
  The running application: the last committed render, the render whose \<^verbatim>\<open>onVis\<close>
  closure is the registered \<^verbatim>\<open>visibilitychange\<close> listener, and the render whose
  closure is the callback of the live interval (\<open>None\<close> when no interval is set).
\<close>

record app =
  cur :: render
  onVis :: render
  tickCb :: "render option"

text \<open>What the component hands to the browser.\<close>

datatype io = Alert string | WindowOpen string | Confirm string

subsection \<open>Formatting\<close>

definition digit :: "nat \<Rightarrow> char" where
  "digit n = char_of (48 + n)"

fun show_nat :: "nat \<Rightarrow> string" where
  "show_nat n = (if n < 10 then [digit n] else show_nat (n div 10) @ [digit (n mod 10)])"

declare show_nat.simps [simp del]

text \<open>\<^verbatim>\<open>${n}\<close> in a template literal, for an integer \<open>n\<close>.\<close>

definition show_int :: "int \<Rightarrow> string" where
  "show_int n = (if n < 0 then CHR ''-'' # show_nat (nat (- n)) else show_nat (nat n))"

text \<open>
  \<^verbatim>\<open>(c/100).toFixed(2)\<close> for an integer number of cents \<open>c\<close>; the component evaluates it
  for \<open>c > 0\<close> only.
\<close>

definition toFixed2 :: "int \<Rightarrow> string" where
  "toFixed2 c =
     (let n = nat \<bar>c\<bar>
      in (if c < 0 then ''-'' else []) @ show_nat (n div 100) @ ''.'' @
         [digit (n div 10 mod 10), digit (n mod 10)])"

definition bone :: string where
  "bone = [CHR 0xF0, CHR 0x9F, CHR 0xA6, CHR 0xB4]"

definition dog_heart :: string where
  "dog_heart = [CHR 0xF0, CHR 0x9F, CHR 0x90, CHR 0xB6,
                CHR 0xE2, CHR 0x9D, CHR 0xA4, CHR 0xEF, CHR 0xB8, CHR 0x8F]"

definition left_tab :: string where
  "left_tab = ''Left tab '' @ [CHR 0xE2, CHR 0x80, CHR 0x94] @ '' tree died.''"

subsection \<open>Loading the persisted values\<close>

text \<open>
  \<^verbatim>\<open>load(key, fallback)\<close>: the argument is what \<^verbatim>\<open>JSON.parse\<close> gives for the stored
  item, \<open>None\<close> when the key is absent, the item is empty or parsing throws.
\<close>

definition load :: "'a option \<Rightarrow> 'a \<Rightarrow> 'a" where
  "load v fallback = (case v of Some x \<Rightarrow> x | None \<Rightarrow> fallback)"

record stored =
  dtf_duration :: "int option"
  dtf_strict :: "bool option"
  dtf_treatsPerSuccess :: "int option"
  dtf_pledgeRateCents :: "int option"
  dtf_shelter :: "shelter option option"
  dtf_treats :: "int option"
  dtf_donatedCents :: "int option"
  dtf_history :: "entry list option"

text \<open>The first render: the initial values of the \<^verbatim>\<open>useState\<close> calls, lines 25 to 38.\<close>

definition first_render :: "stored \<Rightarrow> render" where
  "first_render st =
     (let d = load (dtf_duration st) (25 * 60)
      in \<lparr>duration = d,
          strictMode = load (dtf_strict st) True,
          treatsPerSuccess = load (dtf_treatsPerSuccess st) 5,
          pledgeRateCents = load (dtf_pledgeRateCents st) 2,
          shelter = load (dtf_shelter st)
                      (Some \<lparr>name = ''Local Dog Shelter'', url = Some ''https://''\<rparr>),
          remaining = d,
          running = False,
          status = Idle,
          message = [],
          treats = load (dtf_treats st) 0,
          donatedCents = load (dtf_donatedCents st) 0,
          history = load (dtf_history st) []\<rparr>)"

subsection \<open>The derived ledger values, lines 70 and 71\<close>

definition pledgedCents :: "render \<Rightarrow> int" where
  "pledgedCents r = treats r * pledgeRateCents r"

definition outstandingCents :: "render \<Rightarrow> int" where
  "outstandingCents r = max 0 (pledgedCents r - donatedCents r)"

subsection \<open>The functions of the component body\<close>

text \<open>
  Each takes the state to update last. \<^verbatim>\<open>reset\<close>, \<^verbatim>\<open>complete\<close>, \<^verbatim>\<open>fail\<close> and
  \<^verbatim>\<open>donateNow\<close> read variables, so they take first the render \<open>c\<close> whose closure they
  are; \<^verbatim>\<open>start\<close> reads none.
\<close>

definition start :: "render \<Rightarrow> render" where
  "start s = s\<lparr>status := Running, running := True, message := []\<rparr>"

definition reset :: "render \<Rightarrow> render \<Rightarrow> render" where
  "reset c s = s\<lparr>running := False, status := Idle, message := [], remaining := duration c\<rparr>"

definition complete :: "render \<Rightarrow> string \<Rightarrow> render \<Rightarrow> render" where
  "complete c now s =
     s\<lparr>running := False, status := Done,
       treats := treats s + treatsPerSuccess c,
       history := \<lparr>at = now, e_duration = duration c, success = True,
                    earnedTreats = Some (treatsPerSuccess c)\<rparr> # history s,
       message := ''Nice! +'' @ show_int (treatsPerSuccess c) @ '' '' @ bone @ '' earned''\<rparr>"

text \<open>\<^verbatim>\<open>fail(note="")\<close>: the message is \<^verbatim>\<open>note || "Failed"\<close>.\<close>

definition fail :: "render \<Rightarrow> string \<Rightarrow> string \<Rightarrow> render \<Rightarrow> render" where
  "fail c note now s =
     s\<lparr>running := False, status := Failed,
       history := \<lparr>at = now, e_duration = duration c - remaining c, success = False,
                    earnedTreats = None\<rparr> # history s,
       message := (if note = [] then ''Failed'' else note)\<rparr>"

text \<open>\<^verbatim>\<open>!shelter?.url || shelter.url==="https://"\<close>\<close>

definition url_unset :: "shelter option \<Rightarrow> bool" where
  "url_unset sh =
     (case sh of None \<Rightarrow> True
      | Some x \<Rightarrow> (case url x of None \<Rightarrow> True | Some u \<Rightarrow> u = [] \<or> u = ''https://''))"

definition the_url :: "shelter option \<Rightarrow> string" where
  "the_url sh = (case sh of Some x \<Rightarrow> (case url x of Some u \<Rightarrow> u | None \<Rightarrow> []) | None \<Rightarrow> [])"

text \<open>
  \<^verbatim>\<open>donateNow\<close>, with the answer of \<^verbatim>\<open>confirm\<close>; it returns what was handed to the
  browser, in order, and the new state.
\<close>

definition donateNow :: "render \<Rightarrow> bool \<Rightarrow> render \<Rightarrow> io list \<times> render" where
  "donateNow c confirmed s =
     (if url_unset (shelter c) then ([Alert ''Add shelter URL in Settings.''], s)
      else if outstandingCents c \<le> 0 then ([Alert ''No outstanding pledge.''], s)
      else
        (let asked = [WindowOpen (the_url (shelter c)),
                      Confirm (''Mark $'' @ toFixed2 (outstandingCents c) @ '' as donated?'')]
         in if confirmed
            then (asked,
                  s\<lparr>donatedCents := donatedCents s + outstandingCents c,
                    message := ''Marked $'' @ toFixed2 (outstandingCents c) @ '' donated '' @ dog_heart\<rparr>)
            else (asked, s)))"

text \<open>
  The updater of the interval callback, lines 62 to 65, without its \<^verbatim>\<open>clearInterval\<close>.
  React runs an updater once (twice under the development-only \<^verbatim>\<open>StrictMode\<close>, which
  the component does not use).
\<close>

definition tick_update :: "render \<Rightarrow> string \<Rightarrow> render \<Rightarrow> render" where
  "tick_update c now s =
     (if remaining s \<le> 1 then (complete c now s)\<lparr>remaining := 0\<rparr>
      else s\<lparr>remaining := remaining s - 1\<rparr>)"

subsection \<open>Effects\<close>

text \<open>
  After a handler has run React renders the new state \<open>r\<close> and runs each effect whose
  dependencies differ from those of the previous committed render \<open>cur a\<close>:
  \<^item> lines 53 to 57, dependencies \<^verbatim>\<open>[running, strictMode]\<close>: the listener is replaced by
    the \<^verbatim>\<open>onVis\<close> of the render \<open>r\<close>;
  \<^item> lines 59 to 68, dependency \<^verbatim>\<open>[running]\<close>: the cleanup clears the interval, and a new
    one is set, with the callback of the render \<open>r\<close>, when \<^verbatim>\<open>running\<close> holds;
  \<^item> line 51, dependencies \<^verbatim>\<open>[duration, status]\<close>: \<^verbatim>\<open>remaining\<close> is set to
    \<^verbatim>\<open>duration\<close> when the status is idle; the render this causes changes no dependency.
  The effects that save to \<^verbatim>\<open>localStorage\<close> (lines 42 to 49) change no state.
\<close>

definition commit :: "app \<Rightarrow> render \<Rightarrow> app" where
  "commit a r =
     (let p = cur a
      in \<lparr>cur = (if (duration r \<noteq> duration p \<or> status r \<noteq> status p) \<and> status r = Idle
                 then r\<lparr>remaining := duration r\<rparr> else r),
          onVis = (if running r \<noteq> running p \<or> strictMode r \<noteq> strictMode p then r
                   else onVis a),
          tickCb = (if running r \<noteq> running p then (if running r then Some r else None)
                    else tickCb a)\<rparr>)"

text \<open>Mounting the component: the first render, after which every effect runs.\<close>

definition mount :: "stored \<Rightarrow> app" where
  "mount st =
     (let r = first_render st
      in \<lparr>cur = r, onVis = r, tickCb = (if running r then Some r else None)\<rparr>)"

subsection \<open>Events\<close>

text \<open>
  The button of lines 106 and 107: "Give Up" while running, else "Start Focus" when the
  status is idle, else "Reset". The handler is the one of the render on screen.
\<close>

definition click_main :: "string \<Rightarrow> app \<Rightarrow> app" where
  "click_main now a =
     (let c = cur a
      in commit a (if running c then fail c ''Stopped early'' now c
                   else if status c = Idle then start c else reset c c))"

text \<open>The operations of the state machine, called on the render on screen.\<close>

definition do_start :: "app \<Rightarrow> app" where
  "do_start a = commit a (start (cur a))"

definition do_reset :: "app \<Rightarrow> app" where
  "do_reset a = commit a (reset (cur a) (cur a))"

definition giveUp :: "string \<Rightarrow> string \<Rightarrow> app \<Rightarrow> app" where
  "giveUp note now a = commit a (fail (cur a) note now (cur a))"

text \<open>
  One firing of the interval, lines 61 to 66: nothing fires without an interval; the
  callback is the one of the render that set the interval.
\<close>

definition tick :: "string \<Rightarrow> app \<Rightarrow> app" where
  "tick now a =
     (case tickCb a of
        None \<Rightarrow> a
      | Some c \<Rightarrow>
          if remaining (cur a) \<le> 1
          then commit (a\<lparr>tickCb := None\<rparr>) (tick_update c now (cur a))
          else commit a (tick_update c now (cur a)))"

definition ticks :: "string list \<Rightarrow> app \<Rightarrow> app" where
  "ticks ts a = fold tick ts a"

text \<open>
  A \<^verbatim>\<open>visibilitychange\<close> event, line 54, with the value of \<^verbatim>\<open>document.hidden\<close>: the
  registered listener reads \<^verbatim>\<open>running\<close>, \<^verbatim>\<open>strictMode\<close> and \<^verbatim>\<open>fail\<close> of its own
  render.
\<close>

definition visibilitychange :: "bool \<Rightarrow> string \<Rightarrow> app \<Rightarrow> app" where
  "visibilitychange hidden now a =
     (let c = onVis a
      in if hidden \<and> running c \<and> strictMode c then commit a (fail c left_tab now (cur a))
         else a)"

text \<open>The "Donate Now" button, line 120.\<close>

definition click_donate :: "bool \<Rightarrow> app \<Rightarrow> io list \<times> app" where
  "click_donate confirmed a =
     (let (out, r) = donateNow (cur a) confirmed (cur a) in (out, commit a r))"

text \<open>The setter of line 25.\<close>

definition setDuration :: "int \<Rightarrow> app \<Rightarrow> app" where
  "setDuration d a = commit a ((cur a)\<lparr>duration := d\<rparr>)"

subsection \<open>Runs of the application\<close>

datatype event =
    ClickMain string
  | ClickDonate bool
  | Tick string
  | VisibilityChange bool string
  | Start
  | Reset
  | GiveUp string string
  | SetDuration int

fun step :: "event \<Rightarrow> app \<Rightarrow> app" where
  "step (ClickMain now) a = click_main now a"
| "step (ClickDonate confirmed) a = snd (click_donate confirmed a)"
| "step (Tick now) a = tick now a"
| "step (VisibilityChange hidden now) a = visibilitychange hidden now a"
| "step Start a = do_start a"
| "step Reset a = do_reset a"
| "step (GiveUp note now) a = giveUp note now a"
| "step (SetDuration d) a = setDuration d a"

definition run :: "event list \<Rightarrow> app \<Rightarrow> app" where
  "run evs a = fold step evs a"

subsection \<open>Predicates on states\<close>

text \<open>
  What the dependency arrays of the effects maintain: \<^verbatim>\<open>running\<close> and \<^verbatim>\<open>status\<close>
  agree, the registered listener has the \<^verbatim>\<open>running\<close> and \<^verbatim>\<open>strictMode\<close> on
  screen, and an interval is live exactly while \<^verbatim>\<open>running\<close>, its callback holding the
  \<^verbatim>\<open>treatsPerSuccess\<close> on screen.
\<close>

definition consistent :: "app \<Rightarrow> bool" where
  "consistent a \<longleftrightarrow>
     running (cur a) = (status (cur a) = Running)
   \<and> running (onVis a) = running (cur a)
   \<and> strictMode (onVis a) = strictMode (cur a)
   \<and> (case tickCb a of
         None \<Rightarrow> \<not> running (cur a)
       | Some c \<Rightarrow> running (cur a) \<and> treatsPerSuccess c = treatsPerSuccess (cur a))"

text \<open>An idle state from which a session can start: the clock shows the whole duration.\<close>

definition idle_ready :: "app \<Rightarrow> bool" where
  "idle_ready a \<longleftrightarrow>
     status (cur a) = Idle \<and> \<not> running (cur a) \<and> remaining (cur a) = duration (cur a)"

definition idle_synced :: "app \<Rightarrow> bool" where
  "idle_synced a \<longleftrightarrow> (status (cur a) = Idle \<longrightarrow> remaining (cur a) = duration (cur a))"

definition ledger_ok :: "render \<Rightarrow> bool" where
  "ledger_ok r \<longleftrightarrow> donatedCents r \<le> pledgedCents r"

subsection \<open>Sample states\<close>

text \<open>Empty storage, and the application mounted on it with a stored duration.\<close>

definition no_storage :: stored where
  "no_storage = \<lparr>dtf_duration = None, dtf_strict = None, dtf_treatsPerSuccess = None,
     dtf_pledgeRateCents = None, dtf_shelter = None, dtf_treats = None,
     dtf_donatedCents = None, dtf_history = None\<rparr>"

definition mounted :: "int \<Rightarrow> app" where
  "mounted d = mount (no_storage\<lparr>dtf_duration := Some d\<rparr>)"

text \<open>A session of 100 seconds after 37 ticks; a session of one second, completed.\<close>

definition after_37 :: app where
  "after_37 = ticks (replicate 37 ''t'') (do_start (mounted 100))"

definition finished :: app where
  "finished = ticks [''t''] (do_start (mounted 1))"

text \<open>Fresh storage but for a shelter with a URL, and treats earned before.\<close>

definition with_shelter :: "int \<Rightarrow> app" where
  "with_shelter n =
     mount (no_storage\<lparr>dtf_shelter := Some (Some \<lparr>name = ''Shelter'', url = Some ''https://dogs.example''\<rparr>),
                       dtf_treats := Some n\<rparr>)"

section \<open>Properties\<close>

subsection \<open>Committing a render\<close>

lemma commit_same_deps:
  assumes "duration r = duration (cur a)" and "status r = status (cur a)"
    and "running r = running (cur a)" and "strictMode r = strictMode (cur a)"
  shows "commit a r = a\<lparr>cur := r\<rparr>"
  using assms by (cases a) (simp add: commit_def Let_def)

lemma cur_commit_not_idle:
  assumes "status r \<noteq> Idle"
  shows "cur (commit a r) = r"
  using assms by (simp add: commit_def Let_def)

lemma commit_consistent:
  assumes "consistent a" and "running r = (status r = Running)"
    and "treatsPerSuccess r = treatsPerSuccess (cur a)"
  shows "consistent (commit a r)"
  using assms by (auto simp: consistent_def commit_def Let_def split: option.splits)

subsection \<open>Counting down\<close>

lemma do_start_not_running:
  assumes "\<not> running (cur a)"
  shows "do_start a = \<lparr>cur = start (cur a), onVis = start (cur a), tickCb = Some (start (cur a))\<rparr>"
  using assms by (simp add: do_start_def commit_def start_def Let_def)

lemma tick_running_step:
  assumes "tickCb a = Some c" and "1 < remaining (cur a)"
  shows "tick now a = a\<lparr>cur := (cur a)\<lparr>remaining := remaining (cur a) - 1\<rparr>\<rparr>"
  using assms by (cases a) (simp add: tick_def tick_update_def commit_def Let_def)

lemma tick_last:
  assumes "tickCb a = Some c" and "remaining (cur a) \<le> 1" and "running (cur a)"
  shows "tick now a = \<lparr>cur = (complete c now (cur a))\<lparr>remaining := 0\<rparr>,
                       onVis = (complete c now (cur a))\<lparr>remaining := 0\<rparr>,
                       tickCb = None\<rparr>"
  using assms by (simp add: tick_def tick_update_def commit_def complete_def Let_def)

lemma ticks_snoc: "ticks (ts @ [t]) a = tick t (ticks ts a)"
  by (simp add: ticks_def)

lemma ticks_countdown:
  assumes "tickCb a = Some c" and "int (length ts) < remaining (cur a)"
  shows "ticks ts a = a\<lparr>cur := (cur a)\<lparr>remaining := remaining (cur a) - int (length ts)\<rparr>\<rparr>"
  using assms
proof (induction ts arbitrary: a)
  case Nil
  then show ?case by (simp add: ticks_def)
next
  case (Cons t ts)
  let ?b = "a\<lparr>cur := (cur a)\<lparr>remaining := remaining (cur a) - 1\<rparr>\<rparr>"
  have step: "tick t a = ?b"
    using Cons.prems by (intro tick_running_step) auto
  have "ticks ts ?b = ?b\<lparr>cur := (cur ?b)\<lparr>remaining := remaining (cur ?b) - int (length ts)\<rparr>\<rparr>"
    using Cons.prems by (intro Cons.IH) auto
  then show ?case using step by (simp add: ticks_def)
qed

text \<open>The state after starting from idle and fewer ticks than the duration.\<close>

lemma started_ticks:
  assumes "idle_ready a" and "int (length ts) < duration (cur a)"
  shows "ticks ts (do_start a) =
           \<lparr>cur = (start (cur a))\<lparr>remaining := duration (cur a) - int (length ts)\<rparr>,
            onVis = start (cur a), tickCb = Some (start (cur a))\<rparr>"
proof -
  have b: "do_start a = \<lparr>cur = start (cur a), onVis = start (cur a), tickCb = Some (start (cur a))\<rparr>"
    using assms(1) by (intro do_start_not_running) (simp add: idle_ready_def)
  have rem: "remaining (start (cur a)) = duration (cur a)"
    using assms(1) by (simp add: idle_ready_def start_def)
  show ?thesis
    unfolding b
    by (subst ticks_countdown[where c = "start (cur a)"]) (simp_all add: rem assms(2))
qed

subsection \<open>Sample states, giving up, losing visibility\<close>

lemma mounted_cur:
  "cur (mounted d) = \<lparr>duration = d, strictMode = True, treatsPerSuccess = 5, pledgeRateCents = 2,
      shelter = Some \<lparr>name = ''Local Dog Shelter'', url = Some ''https://''\<rparr>,
      remaining = d, running = False, status = Idle, message = [],
      treats = 0, donatedCents = 0, history = []\<rparr>"
  by (simp add: mounted_def mount_def first_render_def no_storage_def load_def Let_def)

lemma mounted_idle_ready: "idle_ready (mounted d)"
  by (simp add: idle_ready_def mounted_cur)

lemma give_up_elapsed:
  assumes idle: "idle_ready a"
    and len: "int (length ts) < duration (cur a)"
  shows "cur (giveUp note now (ticks ts (do_start a))) =
           (cur a)\<lparr>remaining := duration (cur a) - int (length ts), running := False,
             status := Failed,
             history := \<lparr>at = now, e_duration = int (length ts), success = False,
                          earnedTreats = None\<rparr> # history (cur a),
             message := (if note = [] then ''Failed'' else note)\<rparr>"
  unfolding started_ticks[OF idle len]
  by (simp add: giveUp_def cur_commit_not_idle fail_def start_def)

lemma visibility_strict:
  assumes "running (onVis a)" and "strictMode (onVis a)"
  shows "cur (visibilitychange True now a) = fail (onVis a) left_tab now (cur a)"
  using assms by (simp add: visibilitychange_def Let_def cur_commit_not_idle fail_def)

lemma visibility_ignored:
  assumes "consistent a" and "\<not> (hidden \<and> running (cur a) \<and> strictMode (cur a))"
  shows "visibilitychange hidden now a = a"
  using assms by (auto simp: visibilitychange_def consistent_def)

text \<open>
  The listener and giving up with the same note agree when the listener's render shows
  the elapsed time of the render on screen, as it does before the first tick.
\<close>

lemma visibility_as_give_up:
  assumes "running (onVis a)" and "strictMode (onVis a)"
    and "duration (onVis a) - remaining (onVis a) = duration (cur a) - remaining (cur a)"
  shows "visibilitychange True now a = giveUp left_tab now a"
  using assms by (simp add: visibilitychange_def giveUp_def fail_def Let_def)

text \<open>After a tick it logs no elapsed time at all.\<close>

lemma visibility_stale:
  assumes idle: "idle_ready a" and strict: "strictMode (cur a)"
    and len: "int (length ts) < duration (cur a)"
  shows "cur (visibilitychange True now (ticks ts (do_start a))) =
           (cur a)\<lparr>remaining := duration (cur a) - int (length ts), running := False,
             status := Failed,
             history := \<lparr>at = now, e_duration = 0, success = False,
                          earnedTreats = None\<rparr> # history (cur a),
             message := left_tab\<rparr>"
proof -
  have "left_tab \<noteq> []" by (simp add: left_tab_def)
  moreover have "remaining (cur a) = duration (cur a)"
    using idle by (simp add: idle_ready_def)
  ultimately show ?thesis
    unfolding started_ticks[OF idle len] using strict
    by (simp add: visibility_strict start_def fail_def)
qed

lemma after_37_cur:
  "cur after_37 = (start (cur (mounted 100)))\<lparr>remaining := 63\<rparr>"
  unfolding after_37_def
  by (subst started_ticks[OF mounted_idle_ready]) (simp_all add: mounted_cur)


lemma commit_unchanged: "commit a (cur a) = a"
  by (cases a) (simp add: commit_def Let_def)

lemma donateNow_frame:
  "duration (snd (donateNow c confirmed s)) = duration s"
  "strictMode (snd (donateNow c confirmed s)) = strictMode s"
  "treatsPerSuccess (snd (donateNow c confirmed s)) = treatsPerSuccess s"
  "pledgeRateCents (snd (donateNow c confirmed s)) = pledgeRateCents s"
  "remaining (snd (donateNow c confirmed s)) = remaining s"
  "running (snd (donateNow c confirmed s)) = running s"
  "status (snd (donateNow c confirmed s)) = status s"
  "treats (snd (donateNow c confirmed s)) = treats s"
  "history (snd (donateNow c confirmed s)) = history s"
  by (simp_all add: donateNow_def Let_def)

lemma click_donate_state:
  "snd (click_donate confirmed a) = a\<lparr>cur := snd (donateNow (cur a) confirmed (cur a))\<rparr>"
  by (simp add: click_donate_def split_beta commit_same_deps donateNow_frame)

subsection \<open>Invariants of a run\<close>

lemma mount_consistent: "consistent (mount st)"
  by (simp add: consistent_def mount_def first_render_def Let_def)

lemma tick_consistent:
  assumes "consistent a"
  shows "consistent (tick now a)"
proof (cases "tickCb a")
  case None
  then show ?thesis using assms by (simp add: tick_def)
next
  case (Some c)
  then have run: "running (cur a)" "status (cur a) = Running"
    and tps: "treatsPerSuccess c = treatsPerSuccess (cur a)"
    using assms by (auto simp: consistent_def)
  show ?thesis
  proof (cases "remaining (cur a) \<le> 1")
    case True
    then show ?thesis
      using Some run tps by (simp add: tick_last consistent_def complete_def)
  next
    case False
    then have "tick now a = commit a ((cur a)\<lparr>remaining := remaining (cur a) - 1\<rparr>)"
      using Some by (simp add: tick_def tick_update_def)
    then show ?thesis
      using assms run by (simp add: commit_consistent)
  qed
qed

lemma step_consistent:
  assumes "consistent a"
  shows "consistent (step e a)"
proof (cases e)
  case (ClickMain now)
  then show ?thesis
    using assms
    by (simp add: click_main_def Let_def commit_consistent fail_def start_def reset_def)
next
  case (ClickDonate confirmed)
  then show ?thesis
    using assms
    by (auto simp: click_donate_state consistent_def donateNow_frame split: option.splits)
next
  case (Tick now)
  then show ?thesis using assms by (simp add: tick_consistent)
next
  case (VisibilityChange hidden now)
  then show ?thesis
    using assms by (simp add: visibilitychange_def Let_def commit_consistent fail_def)
next
  case Start
  then show ?thesis using assms by (simp add: do_start_def commit_consistent start_def)
next
  case Reset
  then show ?thesis using assms by (simp add: do_reset_def commit_consistent reset_def)
next
  case (GiveUp nt now)
  then show ?thesis using assms by (simp add: giveUp_def commit_consistent fail_def)
next
  case (SetDuration d)
  moreover have "running (cur a) = (status (cur a) = Running)"
    using assms by (simp add: consistent_def)
  ultimately show ?thesis
    using assms by (simp add: setDuration_def commit_consistent)
qed

lemma run_consistent: "consistent a \<Longrightarrow> consistent (run evs a)"
  unfolding run_def by (induction evs arbitrary: a) (simp_all add: step_consistent)

lemma commit_idle_synced:
  assumes "idle_synced a" and "status r = Idle \<longrightarrow> status (cur a) = Idle \<and> duration r = duration (cur a) \<longrightarrow> remaining r = duration r"
  shows "idle_synced (commit a r)"
  using assms by (auto simp: idle_synced_def commit_def Let_def)

lemma tick_idle_synced:
  assumes "consistent a" and "idle_synced a"
  shows "idle_synced (tick now a)"
proof (cases "tickCb a")
  case None
  then show ?thesis using assms by (simp add: tick_def)
next
  case (Some c)
  then have run: "running (cur a)" "status (cur a) = Running"
    using assms(1) by (auto simp: consistent_def)
  then show ?thesis
    using Some
    by (simp add: tick_def tick_update_def idle_synced_def cur_commit_not_idle complete_def)
qed

lemma step_idle_synced:
  assumes "consistent a" and "idle_synced a"
  shows "idle_synced (step e a)"
proof (cases e)
  case (ClickMain now)
  then show ?thesis
    using assms
    by (auto simp: click_main_def Let_def fail_def start_def reset_def intro!: commit_idle_synced)
next
  case (ClickDonate confirmed)
  then show ?thesis
    using assms(2) by (simp add: click_donate_state idle_synced_def donateNow_frame)
next
  case (Tick now)
  then show ?thesis using assms by (simp add: tick_idle_synced)
next
  case (VisibilityChange hidden now)
  then show ?thesis
    using assms(2)
    by (auto simp: visibilitychange_def Let_def fail_def intro!: commit_idle_synced)
next
  case Start
  then show ?thesis
    using assms(2) by (auto simp: do_start_def start_def intro!: commit_idle_synced)
next
  case Reset
  then show ?thesis
    using assms(2) by (auto simp: do_reset_def reset_def intro!: commit_idle_synced)
next
  case (GiveUp nt now)
  then show ?thesis
    using assms(2) by (auto simp: giveUp_def fail_def intro!: commit_idle_synced)
next
  case (SetDuration d)
  then show ?thesis
    using assms(2) by (auto simp: setDuration_def idle_synced_def commit_def Let_def)
qed

lemma run_idle_synced:
  "consistent a \<Longrightarrow> idle_synced a \<Longrightarrow> idle_synced (run evs a)"
  unfolding run_def
  by (induction evs arbitrary: a) (simp_all add: step_consistent step_idle_synced)

lemma ticks_consistent: "consistent a \<Longrightarrow> consistent (ticks ts a)"
  unfolding ticks_def by (induction ts arbitrary: a) (simp_all add: tick_consistent)

lemma do_start_consistent: "consistent a \<Longrightarrow> consistent (do_start a)"
  using step_consistent[of a Start] by simp

lemma mounted_consistent: "consistent (mounted d)"
  by (simp add: mounted_def mount_consistent)

lemma finished_eq:
  "finished = \<lparr>cur = (complete (start (cur (mounted 1))) ''t'' (start (cur (mounted 1))))\<lparr>remaining := 0\<rparr>,
               onVis = (complete (start (cur (mounted 1))) ''t'' (start (cur (mounted 1))))\<lparr>remaining := 0\<rparr>,
               tickCb = None\<rparr>"
proof -
  have s: "do_start (mounted 1) = \<lparr>cur = start (cur (mounted 1)), onVis = start (cur (mounted 1)),
      tickCb = Some (start (cur (mounted 1)))\<rparr>"
    by (rule do_start_not_running) (simp add: mounted_cur)
  show ?thesis
    unfolding finished_def ticks_def s
    by (simp add: tick_last[where c = "start (cur (mounted 1))"] start_def mounted_cur)
qed

lemma finished_consistent: "consistent finished"
  unfolding finished_def
  by (intro ticks_consistent do_start_consistent mounted_consistent)

lemma after_37_consistent: "consistent after_37"
  unfolding after_37_def
  by (intro ticks_consistent do_start_consistent mounted_consistent)

lemma after_37_onVis: "onVis after_37 = start (cur (mounted 100))"
  unfolding after_37_def
  by (subst started_ticks[OF mounted_idle_ready]) (simp_all add: mounted_cur)

subsection \<open>Donating\<close>

lemma with_shelter_cur:
  "cur (with_shelter n) = \<lparr>duration = 1500, strictMode = True, treatsPerSuccess = 5,
      pledgeRateCents = 2,
      shelter = Some \<lparr>name = ''Shelter'', url = Some ''https://dogs.example''\<rparr>,
      remaining = 1500, running = False, status = Idle, message = [],
      treats = n, donatedCents = 0, history = []\<rparr>"
  by (simp add: with_shelter_def mount_def first_render_def no_storage_def load_def Let_def)

lemma click_donate_unset:
  assumes "url_unset (shelter (cur a))"
  shows "click_donate confirmed a = ([Alert ''Add shelter URL in Settings.''], a)"
  using assms by (simp add: click_donate_def donateNow_def commit_unchanged)

lemma click_donate_nothing:
  assumes "\<not> url_unset (shelter (cur a))" and "outstandingCents (cur a) \<le> 0"
  shows "click_donate confirmed a = ([Alert ''No outstanding pledge.''], a)"
  using assms by (simp add: click_donate_def donateNow_def commit_unchanged)

lemma click_donate_asked:
  assumes "\<not> url_unset (shelter (cur a))" and "0 < outstandingCents (cur a)"
  shows "click_donate confirmed a =
    ([WindowOpen (the_url (shelter (cur a))),
      Confirm (''Mark $'' @ toFixed2 (outstandingCents (cur a)) @ '' as donated?'')],
     if confirmed
     then a\<lparr>cur := (cur a)\<lparr>donatedCents := donatedCents (cur a) + outstandingCents (cur a),
               message := ''Marked $'' @ toFixed2 (outstandingCents (cur a)) @ '' donated '' @ dog_heart\<rparr>\<rparr>
     else a)"
  using assms
  by (simp add: click_donate_def donateNow_def Let_def commit_unchanged commit_same_deps)

subsection \<open>The ledger invariant\<close>

lemma commit_ledger:
  "treats (cur (commit a r)) = treats r"
  "donatedCents (cur (commit a r)) = donatedCents r"
  "pledgeRateCents (cur (commit a r)) = pledgeRateCents r"
  "treatsPerSuccess (cur (commit a r)) = treatsPerSuccess r"
  by (simp_all add: commit_def Let_def)

lemma ledger_ok_cong:
  assumes "treats r = treats s" and "donatedCents r = donatedCents s"
    and "pledgeRateCents r = pledgeRateCents s"
  shows "ledger_ok r = ledger_ok s"
  using assms by (simp add: ledger_ok_def pledgedCents_def)

lemma complete_ledger:
  assumes "ledger_ok s" and "0 \<le> pledgeRateCents s" and "0 \<le> treatsPerSuccess c"
  shows "ledger_ok (complete c now s)"
proof -
  have "0 \<le> treatsPerSuccess c * pledgeRateCents s"
    using assms(2,3) by simp
  then show ?thesis
    using assms(1) by (simp add: ledger_ok_def pledgedCents_def complete_def distrib_right)
qed

lemma donateNow_ledger:
  assumes "ledger_ok s"
  shows "ledger_ok (snd (donateNow s confirmed s))"
  using assms by (simp add: donateNow_def Let_def ledger_ok_def outstandingCents_def pledgedCents_def)

lemma tick_ledger:
  assumes "consistent a" and "ledger_ok (cur a)" and "0 \<le> pledgeRateCents (cur a)"
    and "0 \<le> treatsPerSuccess (cur a)"
  shows "ledger_ok (cur (tick now a))"
proof (cases "tickCb a")
  case None
  then show ?thesis using assms(2) by (simp add: tick_def)
next
  case (Some c)
  then have c: "0 \<le> treatsPerSuccess c"
    using assms(1,4) by (simp add: consistent_def)
  have "ledger_ok (tick_update c now (cur a))"
  proof (cases "remaining (cur a) \<le> 1")
    case True
    have "ledger_ok (complete c now (cur a))"
      using assms(2,3) c by (rule complete_ledger)
    then show ?thesis
      using True by (simp add: tick_update_def ledger_ok_def pledgedCents_def)
  next
    case False
    then show ?thesis
      using assms(2) by (simp add: tick_update_def ledger_ok_def pledgedCents_def)
  qed
  then show ?thesis
    using Some by (simp add: tick_def ledger_ok_def pledgedCents_def commit_ledger)
qed

lemma step_config:
  "pledgeRateCents (cur (step e a)) = pledgeRateCents (cur a)"
  "treatsPerSuccess (cur (step e a)) = treatsPerSuccess (cur a)"
  by (cases e; simp add: click_main_def click_donate_state donateNow_frame tick_def
      tick_update_def visibilitychange_def do_start_def do_reset_def giveUp_def setDuration_def
      commit_ledger Let_def fail_def start_def reset_def complete_def split: option.splits)+

lemma step_ledger:
  assumes "consistent a" and "ledger_ok (cur a)" and "0 \<le> pledgeRateCents (cur a)"
    and "0 \<le> treatsPerSuccess (cur a)"
  shows "ledger_ok (cur (step e a))"
proof (cases e)
  case (ClickMain now)
  then show ?thesis
    using assms(2)
    by (simp add: click_main_def Let_def ledger_ok_def pledgedCents_def commit_ledger
        fail_def start_def reset_def)
next
  case (ClickDonate confirmed)
  then show ?thesis
    using donateNow_ledger[OF assms(2)] by (simp add: click_donate_state)
next
  case (Tick now)
  then show ?thesis using assms by (simp add: tick_ledger)
next
  case (VisibilityChange hidden now)
  then show ?thesis
    using assms(2)
    by (simp add: visibilitychange_def Let_def ledger_ok_def pledgedCents_def commit_ledger fail_def)
next
  case Start
  then show ?thesis
    using assms(2)
    by (simp add: do_start_def ledger_ok_def pledgedCents_def commit_ledger start_def)
next
  case Reset
  then show ?thesis
    using assms(2)
    by (simp add: do_reset_def ledger_ok_def pledgedCents_def commit_ledger reset_def)
next
  case (GiveUp nt now)
  then show ?thesis
    using assms(2)
    by (simp add: giveUp_def ledger_ok_def pledgedCents_def commit_ledger fail_def)
next
  case (SetDuration d)
  then show ?thesis
    using assms(2)
    by (simp add: setDuration_def ledger_ok_def pledgedCents_def commit_ledger)
qed

lemma mount_ledger:
  assumes "0 \<le> treats (cur (mount st))" and "0 \<le> pledgeRateCents (cur (mount st))"
    and "donatedCents (cur (mount st)) = 0"
  shows "ledger_ok (cur (mount st))"
  using assms by (simp add: ledger_ok_def pledgedCents_def)

lemma run_ledger:
  assumes "0 \<le> treats (cur (mount st))" and "0 \<le> pledgeRateCents (cur (mount st))"
    and "0 \<le> treatsPerSuccess (cur (mount st))" and "donatedCents (cur (mount st)) = 0"
  shows "ledger_ok (cur (run evs (mount st)))"
proof -
  have "consistent a \<and> ledger_ok (cur a) \<and> 0 \<le> pledgeRateCents (cur a)
      \<and> 0 \<le> treatsPerSuccess (cur a) \<Longrightarrow> ledger_ok (cur (fold step evs a))" for a
    by (induction evs arbitrary: a) (simp_all add: step_ledger step_consistent step_config)
  then show ?thesis
    using assms by (simp add: run_def mount_consistent mount_ledger)
qed

subsection \<open>Idle shows the duration\<close>

lemma mount_idle: "status (cur (mount st)) = Idle" "remaining (cur (mount st)) = duration (cur (mount st))"
  by (simp_all add: mount_def first_render_def Let_def)

lemma mount_idle_synced: "idle_synced (mount st)"
  by (simp add: idle_synced_def mount_idle)

text \<open>\<^verbatim>\<open>start\<close> while a session is running clears the message and nothing else.\<close>

lemma do_start_running:
  assumes "consistent a" and "status (cur a) = Running"
  shows "do_start a = a\<lparr>cur := (cur a)\<lparr>message := []\<rparr>\<rparr>"
proof -
  have r: "running (cur a)"
    using assms by (simp add: consistent_def)
  have "start (cur a) = (cur a)\<lparr>message := []\<rparr>"
    using assms(2) r by (cases "cur a") (simp add: start_def)
  then show ?thesis
    by (simp add: do_start_def commit_same_deps)
qed

lemma do_start_running_noop:
  assumes "consistent a" and "status (cur a) = Running" and "message (cur a) = []"
  shows "do_start a = a"
proof -
  have "(cur a)\<lparr>message := []\<rparr> = cur a"
    using assms(3) by (cases "cur a") simp
  then show ?thesis
    using do_start_running[OF assms(1,2)] by (cases a) simp
qed

lemma after_37_message: "message (cur after_37) = []"
  by (simp add: after_37_cur start_def)

lemma reachable_idle_ready:
  assumes "status (cur (run evs (mount st))) = Idle"
  shows "idle_ready (run evs (mount st))"
proof -
  have "consistent (run evs (mount st))"
    by (intro run_consistent mount_consistent)
  moreover have "idle_synced (run evs (mount st))"
    by (intro run_idle_synced mount_consistent mount_idle_synced)
  ultimately show ?thesis
    using assms by (simp add: idle_ready_def consistent_def idle_synced_def)
qed

subsection \<open>Claims\<close>

text \<open>
  C1. Tick-to-zero: for every duration \<open>D > 0\<close>, starting a session from idle and
  delivering exactly \<open>D\<close> ticks gives status done and remaining 0, increases the treats by
  exactly \<^verbatim>\<open>treatsPerSuccess\<close>, and prepends exactly one history entry, a success of
  duration \<open>D\<close> (stamped with the time of the last tick).
\<close>

theorem tick_to_zero:
  assumes idle: "idle_ready a"
    and pos: "0 < duration (cur a)"
    and len: "int (length ts) = duration (cur a)"
  shows "status (cur (ticks ts (do_start a))) = Done
       \<and> remaining (cur (ticks ts (do_start a))) = 0
       \<and> treats (cur (ticks ts (do_start a))) = treats (cur a) + treatsPerSuccess (cur a)
       \<and> history (cur (ticks ts (do_start a))) =
           \<lparr>at = last ts, e_duration = duration (cur a), success = True,
            earnedTreats = Some (treatsPerSuccess (cur a))\<rparr> # history (cur a)"
proof -
  from pos len have "ts \<noteq> []" by auto
  then obtain us t where ts: "ts = us @ [t]" by (metis rev_exhaust)
  define s where "s = start (cur a)"
  define m where "m = ticks us (do_start a)"
  have "int (length us) < duration (cur a)"
    using ts len by simp
  from started_ticks[OF idle this]
  have mid: "m = \<lparr>cur = s\<lparr>remaining := duration (cur a) - int (length us)\<rparr>,
                   onVis = s, tickCb = Some s\<rparr>"
    by (simp add: m_def s_def)
  have m: "tickCb m = Some s" "remaining (cur m) = 1" "running (cur m)"
    "treats (cur m) = treats (cur a)" "history (cur m) = history (cur a)"
    using ts len by (simp_all add: mid s_def start_def)
  have "ticks ts (do_start a) = tick t m"
    by (simp add: ts ticks_snoc m_def)
  also have "\<dots> = \<lparr>cur = (complete s t (cur m))\<lparr>remaining := 0\<rparr>,
                    onVis = (complete s t (cur m))\<lparr>remaining := 0\<rparr>, tickCb = None\<rparr>"
    using m(1-3) by (intro tick_last) simp_all
  finally have fin: "cur (ticks ts (do_start a)) = (complete s t (cur m))\<lparr>remaining := 0\<rparr>"
    by simp
  show ?thesis
    unfolding fin by (simp add: complete_def m s_def start_def ts)
qed

theorem tick_to_zero_witness:
  "idle_ready (mounted 3) \<and> 0 < duration (cur (mounted 3))
   \<and> int (length [''t1'', ''t2'', ''t3'']) = duration (cur (mounted 3))
   \<and> status (cur (ticks [''t1'', ''t2'', ''t3''] (do_start (mounted 3)))) = Done
   \<and> remaining (cur (ticks [''t1'', ''t2'', ''t3''] (do_start (mounted 3)))) = 0
   \<and> treats (cur (ticks [''t1'', ''t2'', ''t3''] (do_start (mounted 3)))) = 5
   \<and> history (cur (ticks [''t1'', ''t2'', ''t3''] (do_start (mounted 3)))) =
        [\<lparr>at = ''t3'', e_duration = 3, success = True, earnedTreats = Some 5\<rparr>]"
proof -
  have h1: "idle_ready (mounted 3)" by (rule mounted_idle_ready)
  have h2: "0 < duration (cur (mounted 3))" by (simp add: mounted_cur)
  have h3: "int (length [''t1'', ''t2'', ''t3'']) = duration (cur (mounted 3))"
    by (simp add: mounted_cur)
  show ?thesis
    using h1 h2 h3 tick_to_zero[OF h1 h2 h3] by (simp add: mounted_cur)
qed

text \<open>
  C2, as stated, fails: with a duration of 100, after 37 ticks the clock shows 63, and the
  entry that giving up logs has the elapsed time \<open>100 - 63 = 37\<close> as its duration, not 63.
\<close>

theorem early_failure_63_counterexample:
  "e_duration (hd (history (cur (giveUp [] ''now'' (ticks (replicate 37 ''t'') (do_start (mounted 100))))))) = 37
   \<and> e_duration (hd (history (cur (giveUp [] ''now'' (ticks (replicate 37 ''t'') (do_start (mounted 100))))))) \<noteq> 63
   \<and> remaining (cur (giveUp [] ''now'' (ticks (replicate 37 ''t'') (do_start (mounted 100))))) = 63"
  by (subst give_up_elapsed[OF mounted_idle_ready], simp add: mounted_cur)+ (simp add: mounted_cur)

text \<open>
  C2, amended. Starting with a duration of 100, delivering 37 ticks and then giving up
  (with any note) prepends a history entry with \<open>success = false\<close> and duration
  \<open>37 = D - remaining\<close>, the clock showing 63; the treats are unchanged.
\<close>

theorem early_failure_duration:
  assumes "idle_ready a" and "duration (cur a) = 100" and "length ts = 37"
  shows "history (cur (giveUp nt now (ticks ts (do_start a)))) =
           \<lparr>at = now, e_duration = 37, success = False, earnedTreats = None\<rparr> # history (cur a)
       \<and> treats (cur (giveUp nt now (ticks ts (do_start a)))) = treats (cur a)
       \<and> remaining (cur (giveUp nt now (ticks ts (do_start a)))) = 63"
proof -
  have "int (length ts) < duration (cur a)"
    using assms(2,3) by simp
  from give_up_elapsed[OF assms(1) this] show ?thesis
    using assms(2,3) by simp
qed

theorem early_failure_duration_witness:
  "idle_ready (mounted 100) \<and> duration (cur (mounted 100)) = 100
   \<and> length (replicate 37 ''t'') = 37
   \<and> history (cur (giveUp [] ''now'' (ticks (replicate 37 ''t'') (do_start (mounted 100))))) =
        [\<lparr>at = ''now'', e_duration = 37, success = False, earnedTreats = None\<rparr>]
   \<and> treats (cur (giveUp [] ''now'' (ticks (replicate 37 ''t'') (do_start (mounted 100))))) = 0"
proof -
  have h1: "idle_ready (mounted 100)" by (rule mounted_idle_ready)
  have h2: "duration (cur (mounted 100)) = 100" by (simp add: mounted_cur)
  have h3: "length (replicate 37 ''t'') = 37" by simp
  show ?thesis
    using h1 h2 h3 early_failure_duration[OF h1 h2 h3, of "[]" "''now''"]
    by (simp add: mounted_cur)
qed

text \<open>
  C3. A failure should log \<^verbatim>\<open>duration - remaining\<close> at the moment of failure. The
  "Give Up" button does; the \<^verbatim>\<open>visibilitychange\<close> listener does not: its \<^verbatim>\<open>fail\<close>
  is the closure of the render in which \<^verbatim>\<open>running\<close> last changed, so it logs that
  render's values. After 37 ticks of a session of 100 seconds, in strict mode, losing
  visibility logs duration 0 where giving up logs 37.
\<close>

theorem strict_violation_logs_zero:
  "running (cur after_37) \<and> strictMode (cur after_37)
   \<and> duration (cur after_37) - remaining (cur after_37) = 37
   \<and> history (cur (visibilitychange True ''now'' after_37)) =
        [\<lparr>at = ''now'', e_duration = 0, success = False, earnedTreats = None\<rparr>]
   \<and> history (cur (giveUp ''Stopped early'' ''now'' after_37)) =
        [\<lparr>at = ''now'', e_duration = 37, success = False, earnedTreats = None\<rparr>]"
  by (simp add: visibility_strict after_37_onVis after_37_cur giveUp_def cur_commit_not_idle
      fail_def start_def mounted_cur)

theorem strict_violation_logs_zero_witness:
  "e_duration (hd (history (cur (visibilitychange True ''now'' after_37)))) = 0"
  using strict_violation_logs_zero by simp

text \<open>
  C4. Losing visibility while running in strict mode should give the state that
  \<^verbatim>\<open>giveUp("Left tab ... tree died.")\<close> gives. After 37 ticks of a session of 100
  seconds it does not: the two states differ in the duration of the entry logged (0 and
  37), for the reason given at C3.
\<close>

theorem visibility_is_not_give_up:
  "running (cur after_37) \<and> strictMode (cur after_37)
   \<and> visibilitychange True ''now'' after_37 \<noteq> giveUp left_tab ''now'' after_37
   \<and> e_duration (hd (history (cur (visibilitychange True ''now'' after_37)))) = 0
   \<and> e_duration (hd (history (cur (giveUp left_tab ''now'' after_37)))) = 37"
proof -
  have v: "e_duration (hd (history (cur (visibilitychange True ''now'' after_37)))) = 0"
    by (simp add: visibility_strict after_37_onVis after_37_cur fail_def start_def mounted_cur)
  have g: "e_duration (hd (history (cur (giveUp left_tab ''now'' after_37)))) = 37"
    by (simp add: giveUp_def cur_commit_not_idle after_37_cur fail_def start_def mounted_cur)
  have "visibilitychange True ''now'' after_37 \<noteq> giveUp left_tab ''now'' after_37"
    using v g by auto
  then show ?thesis
    using v g by (simp add: after_37_cur start_def mounted_cur)
qed

theorem visibility_is_not_give_up_witness:
  "history (cur (visibilitychange True ''now'' after_37))
     \<noteq> history (cur (giveUp left_tab ''now'' after_37))"
  using visibility_is_not_give_up by auto

text \<open>
  C5, as stated, fails: \<^verbatim>\<open>start\<close> has no guard. Called after a completed session
  (status done, remaining 0) it changes the state, sets the status to running and sets an
  interval, whose first tick completes a session again and awards the treats a second time.
\<close>

theorem start_unguarded_counterexample:
  "status (cur finished) = Done
   \<and> do_start finished \<noteq> finished
   \<and> status (cur (do_start finished)) = Running
   \<and> running (cur (do_start finished))
   \<and> tickCb (do_start finished) \<noteq> None
   \<and> treats (cur finished) = 5
   \<and> treats (cur (tick ''u'' (do_start finished))) = 10"
proof -
  have st: "status (cur finished) = Done" "\<not> running (cur finished)" "treats (cur finished) = 5"
    "remaining (cur finished) = 0"
    by (simp_all add: finished_eq complete_def start_def mounted_cur)
  have ds: "do_start finished = \<lparr>cur = start (cur finished), onVis = start (cur finished),
      tickCb = Some (start (cur finished))\<rparr>"
    using st(2) by (rule do_start_not_running)
  have neq: "do_start finished \<noteq> finished"
    unfolding ds using st(1) by (auto simp: start_def finished_eq)
  have "tick ''u'' (do_start finished) =
      \<lparr>cur = (complete (start (cur finished)) ''u'' (start (cur finished)))\<lparr>remaining := 0\<rparr>,
       onVis = (complete (start (cur finished)) ''u'' (start (cur finished)))\<lparr>remaining := 0\<rparr>,
       tickCb = None\<rparr>"
    unfolding ds using st(4)
    by (subst tick_last[where c = "start (cur finished)"]) (simp_all add: start_def)
  then have "treats (cur (tick ''u'' (do_start finished))) = 10"
    using st(3) by (simp add: complete_def start_def finished_eq mounted_cur)
  then show ?thesis
    using st neq by (simp add: ds start_def)
qed

text \<open>
  C5, amended. \<^verbatim>\<open>start\<close> has no guard of its own. Called in a consistent state whose
  status is running it begins no new countdown: it clears the message and changes nothing
  else (the interval, the listener, the clock and the ledger stay; it is a no-op when the
  message is empty). Called when the status is done or failed it is neither a no-op nor
  rejected: it sets the status to running and \<^verbatim>\<open>running\<close> to true, clears the message
  and sets an interval, leaving the clock and the ledger as they are. The guard against
  that is the button: a click calls \<^verbatim>\<open>start\<close> when the status is idle only; in any
  other status it gives up (while running) or resets, after which the status is not
  running and no interval is set.
\<close>

theorem start_gated_by_button:
  assumes "consistent a"
  shows "(status (cur a) = Idle \<longrightarrow> click_main now a = do_start a)
       \<and> (status (cur a) \<noteq> Idle \<longrightarrow>
            click_main now a =
              (if running (cur a) then giveUp ''Stopped early'' now a else do_reset a)
          \<and> status (cur (click_main now a)) \<noteq> Running
          \<and> \<not> running (cur (click_main now a))
          \<and> tickCb (click_main now a) = None)
       \<and> cur (do_start a) = (cur a)\<lparr>status := Running, running := True, message := []\<rparr>
       \<and> (status (cur a) = Running \<longrightarrow>
            do_start a = a\<lparr>cur := (cur a)\<lparr>message := []\<rparr>\<rparr>
          \<and> tickCb (do_start a) = tickCb a
          \<and> onVis (do_start a) = onVis a)
       \<and> (status (cur a) = Running \<and> message (cur a) = [] \<longrightarrow> do_start a = a)
       \<and> (status (cur a) \<noteq> Running \<longrightarrow>
            tickCb a = None
          \<and> tickCb (do_start a) = Some ((cur a)\<lparr>status := Running, running := True, message := []\<rparr>)
          \<and> onVis (do_start a) = (cur a)\<lparr>status := Running, running := True, message := []\<rparr>)"
proof -
  have r: "running (cur a) = (status (cur a) = Running)"
    and t: "tickCb a = None \<or> running (cur a)"
    using assms by (auto simp: consistent_def split: option.splits)
  have 1: "status (cur a) = Idle \<longrightarrow> click_main now a = do_start a"
    using r by (simp add: click_main_def do_start_def Let_def)
  have 2: "click_main now a = (if running (cur a) then giveUp ''Stopped early'' now a else do_reset a)"
    if "status (cur a) \<noteq> Idle"
    using that by (simp add: click_main_def giveUp_def do_reset_def Let_def)
  have 3: "status (cur (click_main now a)) \<noteq> Running \<and> \<not> running (cur (click_main now a))
      \<and> tickCb (click_main now a) = None"
    if "status (cur a) \<noteq> Idle"
    using that r t
    by (auto simp: click_main_def Let_def commit_def fail_def reset_def)
  have 4: "cur (do_start a) = (cur a)\<lparr>status := Running, running := True, message := []\<rparr>"
    by (simp add: do_start_def cur_commit_not_idle start_def)
  have 5: "do_start a = a\<lparr>cur := (cur a)\<lparr>message := []\<rparr>\<rparr>
      \<and> tickCb (do_start a) = tickCb a \<and> onVis (do_start a) = onVis a"
    if "status (cur a) = Running"
    using do_start_running[OF assms that] by simp
  have 6: "do_start a = a" if "status (cur a) = Running" and "message (cur a) = []"
    using assms that by (rule do_start_running_noop)
  have 7: "tickCb a = None
      \<and> tickCb (do_start a) = Some ((cur a)\<lparr>status := Running, running := True, message := []\<rparr>)
      \<and> onVis (do_start a) = (cur a)\<lparr>status := Running, running := True, message := []\<rparr>"
    if "status (cur a) \<noteq> Running"
  proof -
    have n: "\<not> running (cur a)" using that r by simp
    with t have "tickCb a = None" by simp
    then show ?thesis
      using do_start_not_running[OF n] by (simp add: start_def)
  qed
  from 1 2 3 4 5 6 7 show ?thesis by blast
qed

theorem start_gated_by_button_witness:
  "consistent (mounted 3) \<and> status (cur (mounted 3)) = Idle
   \<and> click_main ''now'' (mounted 3) = do_start (mounted 3)
   \<and> consistent finished \<and> status (cur finished) \<noteq> Idle
   \<and> click_main ''now'' finished = do_reset finished
   \<and> status (cur (click_main ''now'' finished)) \<noteq> Running
   \<and> tickCb (click_main ''now'' finished) = None
   \<and> consistent after_37 \<and> status (cur after_37) \<noteq> Idle
   \<and> click_main ''now'' after_37 = giveUp ''Stopped early'' ''now'' after_37
   \<and> tickCb (click_main ''now'' after_37) = None
   \<and> status (cur after_37) = Running \<and> message (cur after_37) = []
   \<and> do_start after_37 = after_37
   \<and> status (cur finished) \<noteq> Running
   \<and> tickCb finished = None
   \<and> tickCb (do_start finished) =
        Some ((cur finished)\<lparr>status := Running, running := True, message := []\<rparr>)"
proof -
  have a: "status (cur (mounted 3)) = Idle" by (simp add: mounted_cur)
  have f: "status (cur finished) \<noteq> Idle" "\<not> running (cur finished)"
    by (simp_all add: finished_eq complete_def)
  have g: "status (cur after_37) \<noteq> Idle" "running (cur after_37)"
    by (simp_all add: after_37_cur start_def)
  from start_gated_by_button[OF mounted_consistent, of 3 "''now''"] a
  have w1: "click_main ''now'' (mounted 3) = do_start (mounted 3)"
    by blast
  from start_gated_by_button[OF finished_consistent, of "''now''"] f(1)
  have w2: "click_main ''now'' finished =
        (if running (cur finished) then giveUp ''Stopped early'' ''now'' finished
         else do_reset finished)"
    "status (cur (click_main ''now'' finished)) \<noteq> Running"
    "tickCb (click_main ''now'' finished) = None"
    by blast+
  from start_gated_by_button[OF after_37_consistent, of "''now''"] g(1)
  have w3: "click_main ''now'' after_37 =
        (if running (cur after_37) then giveUp ''Stopped early'' ''now'' after_37
         else do_reset after_37)"
    "tickCb (click_main ''now'' after_37) = None"
    by blast+
  from w2(1) f(2) have w2': "click_main ''now'' finished = do_reset finished"
    by simp
  from w3(1) g(2) have w3': "click_main ''now'' after_37 = giveUp ''Stopped early'' ''now'' after_37"
    by simp
  have h: "status (cur after_37) = Running" "message (cur after_37) = []"
    by (simp_all add: after_37_cur start_def)
  have k: "status (cur finished) \<noteq> Running"
    by (simp add: finished_eq complete_def)
  from start_gated_by_button[OF after_37_consistent, of "''now''"] h
  have w4: "do_start after_37 = after_37"
    by blast
  from start_gated_by_button[OF finished_consistent, of "''now''"] k
  have w5: "tickCb finished = None"
    "tickCb (do_start finished) =
       Some ((cur finished)\<lparr>status := Running, running := True, message := []\<rparr>)"
    by blast+
  show ?thesis
    by (intro conjI mounted_consistent finished_consistent after_37_consistent
        a f(1) g(1) w1 w2' w2(2,3) w3' w3(2) h w4 k w5)
qed

text \<open>
  C6, as stated, fails in its second half: the URL is checked first, so with the
  placeholder URL and nothing outstanding (the state of a first run) \<^verbatim>\<open>donateNow\<close>
  reports the missing URL, not that nothing is outstanding.
\<close>

theorem donate_error_order_counterexample:
  "outstandingCents (cur (mounted 100)) \<le> 0
   \<and> click_donate True (mounted 100) = ([Alert ''Add shelter URL in Settings.''], mounted 100)
   \<and> fst (click_donate True (mounted 100)) \<noteq> [Alert ''No outstanding pledge.'']"
proof -
  have "url_unset (shelter (cur (mounted 100)))"
    by (simp add: url_unset_def mounted_cur)
  then have "click_donate True (mounted 100) = ([Alert ''Add shelter URL in Settings.''], mounted 100)"
    by (rule click_donate_unset)
  moreover have "outstandingCents (cur (mounted 100)) \<le> 0"
    by (simp add: outstandingCents_def pledgedCents_def mounted_cur)
  ultimately show ?thesis by simp
qed

text \<open>
  C6, amended. \<^verbatim>\<open>donateNow\<close> alerts "Add shelter URL in Settings." and changes no state
  when the shelter URL is missing, empty or the placeholder; when the URL is set and
  \<^verbatim>\<open>outstandingCents \<le> 0\<close> it alerts "No outstanding pledge." and changes no state. In
  both cases the alert is all that happens: no window is opened, nothing is asked, and
  the ledger is as before.
\<close>

theorem donate_guards:
  "(url_unset (shelter (cur a)) \<longrightarrow>
      click_donate confirmed a = ([Alert ''Add shelter URL in Settings.''], a))
   \<and> (\<not> url_unset (shelter (cur a)) \<and> outstandingCents (cur a) \<le> 0 \<longrightarrow>
      click_donate confirmed a = ([Alert ''No outstanding pledge.''], a))"
  by (simp add: click_donate_unset click_donate_nothing)

theorem donate_guards_witness:
  "url_unset (shelter (cur (mounted 100)))
   \<and> click_donate True (mounted 100) = ([Alert ''Add shelter URL in Settings.''], mounted 100)
   \<and> \<not> url_unset (shelter (cur (with_shelter 0)))
   \<and> outstandingCents (cur (with_shelter 0)) \<le> 0
   \<and> click_donate True (with_shelter 0) = ([Alert ''No outstanding pledge.''], with_shelter 0)"
proof -
  have u: "url_unset (shelter (cur (mounted 100)))"
    by (simp add: url_unset_def mounted_cur)
  have s: "\<not> url_unset (shelter (cur (with_shelter 0)))"
    by (simp add: url_unset_def with_shelter_cur)
  have z: "outstandingCents (cur (with_shelter 0)) \<le> 0"
    by (simp add: outstandingCents_def pledgedCents_def with_shelter_cur)
  from donate_guards[of "mounted 100" True] u
  have w1: "click_donate True (mounted 100) = ([Alert ''Add shelter URL in Settings.''], mounted 100)"
    by blast
  from donate_guards[of "with_shelter 0" True] s z
  have w2: "click_donate True (with_shelter 0) = ([Alert ''No outstanding pledge.''], with_shelter 0)"
    by blast
  show ?thesis
    by (intro conjI u s z w1 w2)
qed

text \<open>
  C7. \<^verbatim>\<open>donateNow\<close> never decreases \<^verbatim>\<open>donatedCents\<close>, and declining changes no state.
  When the URL is set and something is outstanding, the URL is opened and the user asked
  (no alert); on confirmation \<^verbatim>\<open>donatedCents\<close> grows by exactly the
  \<^verbatim>\<open>outstandingCents\<close> read at entry, after which \<^verbatim>\<open>outstandingCents\<close> is 0.
\<close>

theorem donation_monotone:
  "donatedCents (cur a) \<le> donatedCents (cur (snd (click_donate confirmed a)))
   \<and> snd (click_donate False a) = a
   \<and> (\<not> url_unset (shelter (cur a)) \<and> 0 < outstandingCents (cur a) \<longrightarrow>
        fst (click_donate confirmed a) =
          [WindowOpen (the_url (shelter (cur a))),
           Confirm (''Mark $'' @ toFixed2 (outstandingCents (cur a)) @ '' as donated?'')]
      \<and> donatedCents (cur (snd (click_donate True a))) =
          donatedCents (cur a) + outstandingCents (cur a)
      \<and> outstandingCents (cur (snd (click_donate True a))) = 0)"
proof -
  have 1: "donatedCents (cur a) \<le> donatedCents (cur (snd (click_donate confirmed a)))"
    by (simp add: click_donate_state donateNow_def Let_def outstandingCents_def)
  have 2: "snd (click_donate False a) = a"
    by (simp add: click_donate_def donateNow_def Let_def commit_unchanged)
  have 3: "outstandingCents (cur (snd (click_donate True a))) = 0"
    if "\<not> url_unset (shelter (cur a))" and "0 < outstandingCents (cur a)"
    using that
    by (simp add: click_donate_asked) (simp add: outstandingCents_def pledgedCents_def)
  show ?thesis
    using 1 2 3 by (simp add: click_donate_asked)
qed

theorem donation_monotone_witness:
  "\<not> url_unset (shelter (cur (with_shelter 10)))
   \<and> 0 < outstandingCents (cur (with_shelter 10))
   \<and> donatedCents (cur (with_shelter 10)) = 0
   \<and> outstandingCents (cur (with_shelter 10)) = 20
   \<and> donatedCents (cur (snd (click_donate True (with_shelter 10)))) = 20
   \<and> outstandingCents (cur (snd (click_donate True (with_shelter 10)))) = 0
   \<and> snd (click_donate False (with_shelter 10)) = with_shelter 10"
proof -
  have s: "\<not> url_unset (shelter (cur (with_shelter 10)))"
    by (simp add: url_unset_def with_shelter_cur)
  have o: "outstandingCents (cur (with_shelter 10)) = 20"
    by (simp add: outstandingCents_def pledgedCents_def with_shelter_cur)
  have d: "donatedCents (cur (with_shelter 10)) = 0"
    by (simp add: with_shelter_cur)
  from o have p: "0 < outstandingCents (cur (with_shelter 10))" by simp
  from donation_monotone[of "with_shelter 10" True] s p
  have w: "donatedCents (cur (snd (click_donate True (with_shelter 10)))) =
        donatedCents (cur (with_shelter 10)) + outstandingCents (cur (with_shelter 10))"
    "outstandingCents (cur (snd (click_donate True (with_shelter 10)))) = 0"
    "snd (click_donate False (with_shelter 10)) = with_shelter 10"
    by blast+
  from w(1) o d have w1: "donatedCents (cur (snd (click_donate True (with_shelter 10)))) = 20"
    by simp
  show ?thesis
    by (intro conjI s p d o w1 w(2,3))
qed

text \<open>
  C8. \<^verbatim>\<open>reset\<close>, called in any state, leaves \<^verbatim>\<open>treats\<close>, \<^verbatim>\<open>donatedCents\<close> and
  \<^verbatim>\<open>history\<close> as they are, and sets the status to idle and \<^verbatim>\<open>remaining\<close> to the
  duration.
\<close>

theorem reset_keeps_ledger:
  "treats (cur (do_reset a)) = treats (cur a)
   \<and> donatedCents (cur (do_reset a)) = donatedCents (cur a)
   \<and> history (cur (do_reset a)) = history (cur a)
   \<and> status (cur (do_reset a)) = Idle
   \<and> remaining (cur (do_reset a)) = duration (cur a)"
  by (simp add: do_reset_def commit_def reset_def Let_def)

theorem reset_keeps_ledger_witness:
  "treats (cur (do_reset finished)) = 5
   \<and> donatedCents (cur (do_reset finished)) = 0
   \<and> history (cur (do_reset finished)) =
        [\<lparr>at = ''t'', e_duration = 1, success = True, earnedTreats = Some 5\<rparr>]
   \<and> status (cur (do_reset finished)) = Idle
   \<and> remaining (cur (do_reset finished)) = 1
   \<and> status (cur (do_reset after_37)) = Idle
   \<and> remaining (cur (do_reset after_37)) = 100"
  using reset_keeps_ledger[of finished] reset_keeps_ledger[of after_37]
  by (simp add: finished_eq after_37_cur complete_def start_def mounted_cur)

text \<open>
  C9. \<^verbatim>\<open>donatedCents \<le> pledgedCents\<close>, where \<^verbatim>\<open>pledgedCents = treats * pledgeRateCents\<close>,
  holds after mounting when \<^verbatim>\<open>donatedCents\<close> is 0 (treats and rate not negative), and
  every event preserves it in a consistent state with \<^verbatim>\<open>pledgeRateCents \<ge> 0\<close> and
  \<^verbatim>\<open>treatsPerSuccess \<ge> 0\<close>: a tick (completion included), giving up, losing
  visibility, reset, start, and a donation confirmed, declined or refused. The event leaves
  the rate and the treats per success as they are, and the state consistent; so the
  invariant holds in every state a run of events reaches from such a mounting.
\<close>

theorem donated_le_pledged:
  "(0 \<le> treats (cur (mount st)) \<and> 0 \<le> pledgeRateCents (cur (mount st))
      \<and> donatedCents (cur (mount st)) = 0 \<longrightarrow> ledger_ok (cur (mount st)))
   \<and> (consistent a \<and> ledger_ok (cur a) \<and> 0 \<le> pledgeRateCents (cur a)
      \<and> 0 \<le> treatsPerSuccess (cur a) \<longrightarrow>
        ledger_ok (cur (step e a))
      \<and> consistent (step e a)
      \<and> pledgeRateCents (cur (step e a)) = pledgeRateCents (cur a)
      \<and> treatsPerSuccess (cur (step e a)) = treatsPerSuccess (cur a))
   \<and> (0 \<le> treats (cur (mount st)) \<and> 0 \<le> pledgeRateCents (cur (mount st))
      \<and> 0 \<le> treatsPerSuccess (cur (mount st)) \<and> donatedCents (cur (mount st)) = 0 \<longrightarrow>
        ledger_ok (cur (run evs (mount st))))"
  by (simp add: mount_ledger step_ledger step_consistent step_config run_ledger)


theorem donated_le_pledged_witness:
  "0 \<le> treats (cur (mount no_storage)) \<and> 0 \<le> pledgeRateCents (cur (mount no_storage))
   \<and> donatedCents (cur (mount no_storage)) = 0
   \<and> ledger_ok (cur (mount no_storage))
   \<and> consistent (with_shelter 10) \<and> ledger_ok (cur (with_shelter 10))
   \<and> 0 \<le> pledgeRateCents (cur (with_shelter 10))
   \<and> 0 \<le> treatsPerSuccess (cur (with_shelter 10))
   \<and> ledger_ok (cur (step (ClickDonate True) (with_shelter 10)))
   \<and> consistent (do_start (mounted 1)) \<and> ledger_ok (cur (do_start (mounted 1)))
   \<and> 0 \<le> pledgeRateCents (cur (do_start (mounted 1)))
   \<and> 0 \<le> treatsPerSuccess (cur (do_start (mounted 1)))
   \<and> ledger_ok (cur (step (Tick ''t'') (do_start (mounted 1))))
   \<and> 0 \<le> treatsPerSuccess (cur (mount no_storage))
   \<and> ledger_ok (cur (run [Start, Tick ''t'', Reset] (mount no_storage)))"
proof -
  have m: "0 \<le> treats (cur (mount no_storage))" "0 \<le> pledgeRateCents (cur (mount no_storage))"
    "donatedCents (cur (mount no_storage)) = 0"
    by (simp_all add: mount_def first_render_def no_storage_def load_def Let_def)
  have s: "consistent (with_shelter 10)" "ledger_ok (cur (with_shelter 10))"
    "0 \<le> pledgeRateCents (cur (with_shelter 10))" "0 \<le> treatsPerSuccess (cur (with_shelter 10))"
    by (simp_all add: with_shelter_def mount_consistent)
       (simp_all add: with_shelter_cur[unfolded with_shelter_def] ledger_ok_def pledgedCents_def)
  have t: "consistent (do_start (mounted 1))" "ledger_ok (cur (do_start (mounted 1)))"
    "0 \<le> pledgeRateCents (cur (do_start (mounted 1)))"
    "0 \<le> treatsPerSuccess (cur (do_start (mounted 1)))"
    by (simp_all add: do_start_consistent mounted_consistent)
       (simp_all add: do_start_def cur_commit_not_idle start_def mounted_cur ledger_ok_def
          pledgedCents_def)
  have p: "0 \<le> treatsPerSuccess (cur (mount no_storage))"
    by (simp add: mount_def first_render_def no_storage_def load_def Let_def)
  from donated_le_pledged[of no_storage "with_shelter 10" "ClickDonate True"
      "[Start, Tick ''t'', Reset]"] m p s
  have w1: "ledger_ok (cur (mount no_storage))"
    "ledger_ok (cur (step (ClickDonate True) (with_shelter 10)))"
    "ledger_ok (cur (run [Start, Tick ''t'', Reset] (mount no_storage)))"
    by blast+
  from donated_le_pledged[of no_storage "do_start (mounted 1)" "Tick ''t''"] t
  have w2: "ledger_ok (cur (step (Tick ''t'') (do_start (mounted 1))))"
    by blast
  show ?thesis
    by (intro conjI m p s t w1 w2)
qed

text \<open>
  C10. Whenever the status is idle, \<^verbatim>\<open>remaining\<close> is the configured duration: in every
  state a run of events reaches from mounting; at mounting itself; after \<^verbatim>\<open>reset\<close>; and at
  once when the duration is changed while the status is idle. Every event preserves it in
  a consistent state.
\<close>

theorem idle_shows_duration:
  "idle_synced (run evs (mount st))
   \<and> status (cur (mount st)) = Idle
   \<and> remaining (cur (mount st)) = duration (cur (mount st))
   \<and> status (cur (do_reset a)) = Idle
   \<and> remaining (cur (do_reset a)) = duration (cur (do_reset a))
   \<and> (status (cur a) = Idle \<and> d \<noteq> duration (cur a) \<longrightarrow>
        status (cur (setDuration d a)) = Idle
      \<and> duration (cur (setDuration d a)) = d
      \<and> remaining (cur (setDuration d a)) = d)
   \<and> (consistent a \<and> idle_synced a \<longrightarrow> idle_synced (step e a))"
proof -
  have 1: "idle_synced (run evs (mount st))"
    by (intro run_idle_synced mount_consistent mount_idle_synced)
  have 2: "status (cur (do_reset a)) = Idle \<and> remaining (cur (do_reset a)) = duration (cur (do_reset a))"
    by (simp add: do_reset_def commit_def reset_def Let_def)
  have 3: "status (cur (setDuration d a)) = Idle \<and> duration (cur (setDuration d a)) = d
      \<and> remaining (cur (setDuration d a)) = d"
    if "status (cur a) = Idle" and "d \<noteq> duration (cur a)"
    using that by (simp add: setDuration_def commit_def Let_def)
  show ?thesis
    using 1 2 3 by (simp add: mount_idle step_idle_synced)
qed

theorem idle_shows_duration_witness:
  "status (cur (run [SetDuration 60, Start, Tick ''t'', Reset, SetDuration 90] (mount no_storage))) = Idle
   \<and> remaining (cur (run [SetDuration 60, Start, Tick ''t'', Reset, SetDuration 90] (mount no_storage))) = 90
   \<and> duration (cur (run [SetDuration 60, Start, Tick ''t'', Reset, SetDuration 90] (mount no_storage))) = 90
   \<and> status (cur (mounted 3)) = Idle \<and> 60 \<noteq> duration (cur (mounted 3))
   \<and> remaining (cur (setDuration 60 (mounted 3))) = 60
   \<and> consistent (mounted 3) \<and> idle_synced (mounted 3)
   \<and> idle_synced (step (Tick ''t'') (mounted 3))"
proof -
  let ?evs = "[SetDuration 60, Start, Tick ''t'', Reset, SetDuration 90]"
  have st: "status (cur (run ?evs (mount no_storage))) = Idle"
    and du: "duration (cur (run ?evs (mount no_storage))) = 90"
    by (simp_all add: run_def mount_def first_render_def no_storage_def load_def Let_def
        setDuration_def do_start_def do_reset_def tick_def tick_update_def commit_def
        start_def reset_def)
  have a: "status (cur (mounted 3)) = Idle" "60 \<noteq> duration (cur (mounted 3))"
    by (simp_all add: mounted_cur)
  have i: "idle_synced (mounted 3)"
    by (simp add: mounted_def mount_idle_synced)
  note T = idle_shows_duration[of ?evs no_storage "mounted 3" 60 "Tick ''t''"]
  from T st du have w1: "remaining (cur (run ?evs (mount no_storage))) = 90"
    by (simp add: idle_synced_def)
  from T a have w2: "remaining (cur (setDuration 60 (mounted 3))) = 60"
    by blast
  from T i mounted_consistent[of 3] have w3: "idle_synced (step (Tick ''t'') (mounted 3))"
    by blast
  show ?thesis
    by (intro conjI st du a i w1 w2 w3 mounted_consistent)
qed

end
